theory Spec2Isabelle
  imports Complex_Main
begin

section \<open>Node migration worker (clusterman/migration/worker.py)\<close>

subsection \<open>Data\<close>

text \<open>
  The engine's view of a live node: \<open>ClusterNodeMetadata(agent, instance)\<close>. Only the
  attributes the worker reads are kept. Timestamps and durations are whole seconds.
\<close>

record AgentMetadata =
  agent_id :: string
  task_count :: int

record InstanceMetadata =
  ip_address :: string
  weight :: rat
  uptime :: int

record ClusterNodeMetadata =
  agent :: AgentMetadata
  "instance" :: InstanceMetadata

text \<open>
  What the worker does to its collaborators, in the order it does it. Each constructor is
  one call of the source (with the value it returned, where the worker branches on it);
  \<open>Poll\<close> is the test \<open>if draining_happened and capacity_satisfied and pods_healthy\<close>
  at the end of one pass of the monitoring loop, with the three flags as they are then.
\<close>

datatype event =
    Time int
  | Sleep int
  | ReloadState bool
  | GetAgentMetadata string
  | IsCapacitySatisfied bool
  | HasEnoughCapacityForPods bool
  | Poll bool bool bool
  | GetNodeMetadatas
  | SubmitForDraining ClusterNodeMetadata
  | GaugeSet int
  | CounterCount
  | TimerStart
  | TimerStop
  | MonitorCall int "ClusterNodeMetadata list" bool
  | MonitorReturn bool
  | SetLabelSelectors
  | LockAcquire int bool
  | LockRelease
  | DisableAutoscaling int
  | EnableAutoscaling
  | ModifyTargetCapacity int

text \<open>
  The collaborators (clock, pool manager, cluster connector, pool lock) are outside the
  repository. They are a record of arbitrary state transformers over a world \<open>'w\<close>, so a
  theorem for all \<open>env\<close> holds for every behaviour of the manager and the connector.
\<close>

record 'w env =
  time_time :: "'w \<Rightarrow> int \<times> 'w"
  time_sleep :: "int \<Rightarrow> 'w \<Rightarrow> 'w"
  reload_state :: "bool \<Rightarrow> 'w \<Rightarrow> 'w"
  get_agent_metadata :: "string \<Rightarrow> 'w \<Rightarrow> AgentMetadata \<times> 'w"
  is_capacity_satisfied :: "'w \<Rightarrow> bool \<times> 'w"
  has_enough_capacity_for_pods :: "'w \<Rightarrow> bool \<times> 'w"
  get_node_metadatas :: "'w \<Rightarrow> ClusterNodeMetadata list \<times> 'w"
  submit_for_draining :: "ClusterNodeMetadata \<Rightarrow> 'w \<Rightarrow> 'w"
  target_capacity :: "'w \<Rightarrow> rat"
  modify_target_capacity :: "int \<Rightarrow> 'w \<Rightarrow> 'w"
  set_label_selectors :: "'w \<Rightarrow> 'w"
  lock_acquire :: "int \<Rightarrow> 'w \<Rightarrow> bool \<times> 'w"
  lock_release :: "'w \<Rightarrow> 'w"
  toggle_disable_autoscaling :: "int \<Rightarrow> 'w \<Rightarrow> 'w"
  toggle_enable_autoscaling :: "'w \<Rightarrow> 'w"

subsection \<open>\<open>_monitor_pool_health\<close>\<close>

text \<open>
  The generator inside \<open>any(...)\<close>: the nodes are visited in order, one
  \<open>get_agent_metadata\<close> call each, and \<open>any\<close> stops at the first node whose agent id is
  still the one registered at its address.
\<close>

fun any_agent_unchanged ::
  "'w env \<Rightarrow> ClusterNodeMetadata list \<Rightarrow> 'w \<Rightarrow> bool \<times> event list \<times> 'w" where
  "any_agent_unchanged env [] w = (False, [], w)"
| "any_agent_unchanged env (node # rest) w =
     (let (a, w1) = get_agent_metadata env (ip_address (instance node)) w in
      if agent_id (agent node) = agent_id a
      then (True, [GetAgentMetadata (ip_address (instance node))], w1)
      else (let (b, evs, w2) = any_agent_unchanged env rest w1
            in (b, GetAgentMetadata (ip_address (instance node)) # evs, w2)))"

text \<open>
  One pass of the loop body up to the \<open>if\<close>: reload, then the three assignments with
  Python's short-circuit \<open>or\<close> and \<open>and\<close> (a collaborator is only called when the left
  operand does not already decide the value).
\<close>

definition poll ::
  "'w env \<Rightarrow> ClusterNodeMetadata list \<Rightarrow> bool \<Rightarrow> bool \<Rightarrow> bool \<Rightarrow> bool \<Rightarrow> 'w
     \<Rightarrow> (bool \<times> bool \<times> bool) \<times> event list \<times> 'w" where
  "poll env drained ignore_pod_health d c p w =
     (let w1 = reload_state env (\<not> ignore_pod_health) w;
          (d', ev2, w2) =
             (if d then (True, [], w1)
              else (let (b, evs, w') = any_agent_unchanged env drained w1 in (\<not> b, evs, w')));
          (c', ev3, w3) =
             (if c then (True, [], w2)
              else if d' then (let (b, w') = is_capacity_satisfied env w2
                               in (b, [IsCapacitySatisfied b], w'))
              else (False, [], w2));
          (p', ev4, w4) =
             (if p then (True, [], w3)
              else if d' then
                (if ignore_pod_health then (True, [], w3)
                 else (let (b, w') = has_enough_capacity_for_pods env w3
                       in (b, [HasEnoughCapacityForPods b], w')))
              else (False, [], w3))
      in ((d', c', p'),
          ReloadState (\<not> ignore_pod_health) # ev2 @ ev3 @ ev4 @ [Poll d' c' p'], w4))"

text \<open>
  The \<open>while time.time() < timeout\<close> loop. Nothing bounds the number of passes (a clock
  that stands still never ends it), so the model takes fuel, one unit per reading of the
  clock, and \<open>None\<close> is "still running when the fuel ran out".
\<close>

fun monitor_loop ::
  "nat \<Rightarrow> 'w env \<Rightarrow> int \<Rightarrow> ClusterNodeMetadata list \<Rightarrow> int \<Rightarrow> bool
     \<Rightarrow> bool \<Rightarrow> bool \<Rightarrow> bool \<Rightarrow> 'w \<Rightarrow> bool option \<times> event list \<times> 'w" where
  "monitor_loop 0 env timeout drained interval ignore_pod_health d c p w = (None, [], w)"
| "monitor_loop (Suc n) env timeout drained interval ignore_pod_health d c p w =
     (let (t, w0) = time_time env w in
      if t < timeout then
        (let ((d', c', p'), evs, w1) = poll env drained ignore_pod_health d c p w0 in
         if d' \<and> c' \<and> p' then (Some True, Time t # evs, w1)
         else
           (let w2 = time_sleep env interval w1;
                (r, evs', w3) =
                   monitor_loop n env timeout drained interval ignore_pod_health d' c' p' w2
            in (r, Time t # evs @ Sleep interval # evs', w3)))
      else (Some False, [Time t], w0))"

definition monitor_pool_health ::
  "nat \<Rightarrow> 'w env \<Rightarrow> int \<Rightarrow> ClusterNodeMetadata list \<Rightarrow> int \<Rightarrow> bool
     \<Rightarrow> 'w \<Rightarrow> bool option \<times> event list \<times> 'w" where
  "monitor_pool_health fuel env timeout drained health_check_interval_seconds ignore_pod_health w =
     monitor_loop fuel env timeout drained health_check_interval_seconds ignore_pod_health
       False False False w"


subsection \<open>\<open>_drain_node_selection\<close>\<close>

text \<open>
  \<open>WorkerSetup\<close> (clusterman/migration/settings.py is not among the sources). The two
  methods the worker calls on it are fields: \<open>rate_of\<close> is \<open>worker_setup.rate.of\<close>,
  \<open>prescaling_of\<close> is \<open>worker_setup.prescaling.of\<close> (\<open>None\<close> when no pre-scaling is
  configured) and \<open>precedence_sort_key\<close> is \<open>worker_setup.precedence.sort_key\<close>; they
  are arbitrary functions, so nothing proved below depends on how a pool portion is
  computed.
\<close>

record 'k WorkerSetup =
  rate_of :: "nat \<Rightarrow> int"
  prescaling_of :: "(nat \<Rightarrow> int) option"
  precedence_sort_key :: "ClusterNodeMetadata \<Rightarrow> 'k"
  bootstrap_wait :: int
  bootstrap_timeout :: int
  disable_autoscaling :: bool
  expected_duration :: int
  health_check_interval :: int
  ignore_pod_health :: bool

datatype error = ValueError | StatisticsError | NodeMigrationError | TimeoutError

text \<open>
  \<open>range(0, n, step)\<close> for a step that is not zero (a zero step raises, which the
  caller models): the multiples of the step below \<open>n\<close>, and nothing for a negative step.
\<close>

definition range_from_zero :: "nat \<Rightarrow> int \<Rightarrow> nat list" where
  "range_from_zero n step =
     (if 0 < step then map (\<lambda>k. k * nat step) [0 ..< (n + nat step - 1) div nat step] else [])"

text \<open>The inner \<open>for node in selection_chunk\<close> loop.\<close>

fun submit_chunk ::
  "'w env \<Rightarrow> ClusterNodeMetadata list \<Rightarrow> 'w \<Rightarrow> event list \<times> 'w" where
  "submit_chunk env [] w = ([], w)"
| "submit_chunk env (node # rest) w =
     (let w1 = submit_for_draining env node w;
          (evs, w2) = submit_chunk env rest w1
      in (SubmitForDraining node # GaugeSet (uptime (instance node)) # CounterCount # evs, w2))"

text \<open>
  The \<open>for i in range(0, len(selected), chunk)\<close> loop, over the indices the range
  yields. \<open>MonitorCall\<close> and \<open>MonitorReturn\<close> bracket the events of the nested
  \<open>_monitor_pool_health\<close> call; \<open>fuel\<close> bounds the passes of each such call.
\<close>

fun drain_chunks ::
  "nat \<Rightarrow> 'w env \<Rightarrow> 'k WorkerSetup \<Rightarrow> ClusterNodeMetadata list \<Rightarrow> int \<Rightarrow> nat list \<Rightarrow> 'w
     \<Rightarrow> (error + bool) option \<times> event list \<times> 'w" where
  "drain_chunks fuel env worker_setup selected chunk [] w = (Some (Inr True), [TimerStop], w)"
| "drain_chunks fuel env worker_setup selected chunk (i # rest) w =
     (let (start_time, w1) = time_time env w;
          selection_chunk = take (nat chunk) (drop i selected);
          (evs_submit, w2) = submit_chunk env selection_chunk w1;
          w3 = time_sleep env (bootstrap_wait worker_setup) w2;
          (healthy, evs_monitor, w4) =
             monitor_pool_health fuel env (start_time + bootstrap_timeout worker_setup)
               selection_chunk (health_check_interval worker_setup)
               (ignore_pod_health worker_setup) w3;
          evs = Time start_time # evs_submit
                @ [Sleep (bootstrap_wait worker_setup),
                   MonitorCall (start_time + bootstrap_timeout worker_setup) selection_chunk
                     (ignore_pod_health worker_setup)]
                @ evs_monitor
      in case healthy of
           None \<Rightarrow> (None, evs, w4)
         | Some False \<Rightarrow> (Some (Inr False), evs @ [MonitorReturn False, TimerStop], w4)
         | Some True \<Rightarrow>
             (let (r, evs_rest, w5) = drain_chunks fuel env worker_setup selected chunk rest w4
              in (r, evs @ MonitorReturn True # evs_rest, w5)))"

definition drain_node_selection ::
  "nat \<Rightarrow> 'w env \<Rightarrow> (ClusterNodeMetadata \<Rightarrow> bool) \<Rightarrow> ('k::linorder) WorkerSetup \<Rightarrow> 'w
     \<Rightarrow> (error + bool) option \<times> event list \<times> 'w" where
  "drain_node_selection fuel env selector worker_setup w =
     (let (nodes, w1) = get_node_metadatas env w;
          selected = sort_key (precedence_sort_key worker_setup) (filter selector nodes)
      in if selected = [] then (Some (Inr True), [GetNodeMetadatas], w1)
         else
           (let chunk = rate_of worker_setup (length nodes) in
            if chunk = 0 then (Some (Inl ValueError), [GetNodeMetadatas, TimerStart], w1)
            else
              (let (r, evs, w2) =
                     drain_chunks fuel env worker_setup selected chunk
                       (range_from_zero (length selected) chunk) w1
               in (r, GetNodeMetadatas # TimerStart # evs, w2))))"


subsection \<open>\<open>event_migration_worker\<close>\<close>

text \<open>
  Of \<open>MigrationEvent\<close> (clusterman/migration/event.py is not among the sources) the
  worker uses the names and \<open>condition.matches\<close>, which is a field here.
\<close>

record MigrationEvent =
  cluster :: string
  pool :: string
  condition_matches :: "ClusterNodeMetadata \<Rightarrow> bool"

definition INITIAL_POOL_HEALTH_TIMEOUT_SECONDS :: int where
  "INITIAL_POOL_HEALTH_TIMEOUT_SECONDS = 15 * 60"

text \<open>
  \<open>statistics.mean\<close> raises on no data; \<open>round\<close> rounds a half to the even neighbour.
  Both are taken over the rationals, so the rounding error of Python's floats is left out.
\<close>

definition mean :: "rat list \<Rightarrow> error + rat" where
  "mean xs = (if xs = [] then Inl StatisticsError else Inr (sum_list xs / of_nat (length xs)))"

definition py_round :: "rat \<Rightarrow> int" where
  "py_round x =
     (let f = \<lfloor>x\<rfloor>; d = x - of_int f
      in if d < 1 / 2 then f else if 1 / 2 < d then f + 1 else if even f then f else f + 1)"

type_synonym 'w outcome = "(error + bool) option \<times> event list \<times> 'w"

text \<open>
  The \<open>try\<close> block after the lock has been asked for. \<open>limit_function_runtime\<close>
  (clusterman/util.py is not among the sources) is a parameter: it is given the time
  limit and the routine, and returns what the routine returns or raises.
\<close>

definition prescale :: "'w env \<Rightarrow> 'k WorkerSetup \<Rightarrow> 'w \<Rightarrow> (error + unit) \<times> event list \<times> 'w" where
  "prescale env worker_setup w =
     (case prescaling_of worker_setup of
        None \<Rightarrow> (Inr (), [], w)
      | Some prescaling_of' \<Rightarrow>
          (let (nodes, w1) = get_node_metadatas env w;
               offset = prescaling_of' (length nodes)
           in case mean (map (\<lambda>node. weight (instance node)) nodes) of
                Inl e \<Rightarrow> (Inl e, [GetNodeMetadatas], w1)
              | Inr avg_weight \<Rightarrow>
                  (let prescaled_capacity =
                         py_round (target_capacity env w1 + of_int offset * avg_weight)
                   in (Inr (), [GetNodeMetadatas, ModifyTargetCapacity prescaled_capacity],
                       modify_target_capacity env prescaled_capacity w1))))"

definition event_migration_steps ::
  "nat \<Rightarrow> 'w env \<Rightarrow> (int \<Rightarrow> ('w \<Rightarrow> 'w outcome) \<Rightarrow> 'w \<Rightarrow> 'w outcome) \<Rightarrow> MigrationEvent
     \<Rightarrow> ('k::linorder) WorkerSetup \<Rightarrow> 'w \<Rightarrow> (error + unit) option \<times> event list \<times> 'w" where
  "event_migration_steps fuel env limit_function_runtime migration_event worker_setup w =
     (let (evs1, w1) =
            (if disable_autoscaling worker_setup
             then (let (t, w') = time_time env w
                   in ([Time t, DisableAutoscaling (t + expected_duration worker_setup)],
                       toggle_disable_autoscaling env (t + expected_duration worker_setup) w'))
             else ([], w))
      in case prescale env worker_setup w1 of
           (Inl e, evs2, w2) \<Rightarrow> (Some (Inl e), evs1 @ evs2, w2)
         | (Inr u, evs2, w2) \<Rightarrow>
             (let (t, w3) = time_time env w2;
                  (healthy, evs3, w4) =
                     monitor_pool_health fuel env (t + INITIAL_POOL_HEALTH_TIMEOUT_SECONDS) []
                       (health_check_interval worker_setup) True w3;
                  evs = evs1 @ evs2
                        @ Time t # MonitorCall (t + INITIAL_POOL_HEALTH_TIMEOUT_SECONDS) [] True
                        # evs3
              in case healthy of
                   None \<Rightarrow> (None, evs, w4)
                 | Some False \<Rightarrow> (Some (Inl NodeMigrationError), evs @ [MonitorReturn False], w4)
                 | Some True \<Rightarrow>
                     (let node_selector =
                            (\<lambda>node. agent_id (agent node) \<noteq> []
                                     \<and> \<not> condition_matches migration_event node);
                          (r, evs4, w5) =
                             limit_function_runtime (expected_duration worker_setup)
                               (drain_node_selection fuel env node_selector worker_setup) w4;
                          evs' = evs @ MonitorReturn True # evs4
                      in case r of
                           None \<Rightarrow> (None, evs', w5)
                         | Some (Inl e) \<Rightarrow> (Some (Inl e), evs', w5)
                         | Some (Inr False) \<Rightarrow> (Some (Inl NodeMigrationError), evs', w5)
                         | Some (Inr True) \<Rightarrow> (Some (Inr ()), evs', w5))))"

text \<open>
  The whole worker. \<open>pool_lock.acquire(timeout=...)\<close> returns whether the lock was
  obtained; the source calls it as a statement, so the value goes unused and
  \<open>pool_lock_acquired\<close> is set in either case. The \<open>finally\<close> block runs on every
  way out of the \<open>try\<close> block.
\<close>

definition event_migration_worker ::
  "nat \<Rightarrow> 'w env \<Rightarrow> (int \<Rightarrow> ('w \<Rightarrow> 'w outcome) \<Rightarrow> 'w \<Rightarrow> 'w outcome) \<Rightarrow> MigrationEvent
     \<Rightarrow> ('k::linorder) WorkerSetup \<Rightarrow> 'w \<Rightarrow> (error + unit) option \<times> event list \<times> 'w" where
  "event_migration_worker fuel env limit_function_runtime migration_event worker_setup w =
     (let w1 = set_label_selectors env w;
          w2 = reload_state env (\<not> ignore_pod_health worker_setup) w1;
          (acquired, w3) = lock_acquire env (expected_duration worker_setup) w2;
          pool_lock_acquired = True;
          (r, evs, w4) =
             event_migration_steps fuel env limit_function_runtime migration_event worker_setup w3;
          evs' = SetLabelSelectors # ReloadState (\<not> ignore_pod_health worker_setup)
                 # LockAcquire (expected_duration worker_setup) acquired # evs
      in case r of
           None \<Rightarrow> (None, evs', w4)
         | Some res \<Rightarrow>
             (let (evs5, w5) =
                    (if pool_lock_acquired then ([LockRelease], lock_release env w4) else ([], w4));
                  (evs6, w6) =
                    (if disable_autoscaling worker_setup
                     then ([EnableAutoscaling], toggle_enable_autoscaling env w5)
                     else ([], w5))
              in (Some res, evs' @ evs5 @ evs6, w6)))"

subsection \<open>A concrete pool\<close>

text \<open>
  A small world to run the worker in: a clock that only \<open>sleep\<close> and a blocked
  \<open>acquire\<close> advance, and a pool lock that another worker may hold for good. Nodes count as
  replaced from second 2 on, capacity is back at second 3 and pods fit at second 4.
\<close>

record world =
  clock :: int
  lock_busy :: bool

definition mk_node :: "string \<Rightarrow> int \<Rightarrow> int \<Rightarrow> ClusterNodeMetadata" where
  "mk_node a tasks up =
     \<lparr>agent = \<lparr>agent_id = a, task_count = tasks\<rparr>,
      instance = \<lparr>ip_address = a, weight = 1, uptime = up\<rparr>\<rparr>"

definition demo_pool :: "ClusterNodeMetadata list" where
  "demo_pool =
     [mk_node ''a0'' 30 20000, mk_node ''a1'' 28 19000, mk_node ''a2'' 26 18000,
      mk_node ''a3'' 24 17000, mk_node ''a4'' 22 9000, mk_node ''a5'' 20 8000]"

definition demo_env :: "world env" where
  "demo_env =
     \<lparr>time_time = (\<lambda>w. (clock w, w)),
      time_sleep = (\<lambda>n w. w\<lparr>clock := clock w + n\<rparr>),
      reload_state = (\<lambda>b w. w),
      get_agent_metadata =
        (\<lambda>ip w. (\<lparr>agent_id = (if clock w < 2 then ip else []), task_count = 0\<rparr>, w)),
      is_capacity_satisfied = (\<lambda>w. (3 \<le> clock w, w)),
      has_enough_capacity_for_pods = (\<lambda>w. (4 \<le> clock w, w)),
      get_node_metadatas = (\<lambda>w. (demo_pool, w)),
      submit_for_draining = (\<lambda>n w. w),
      target_capacity = (\<lambda>w. 6),
      modify_target_capacity = (\<lambda>n w. w),
      set_label_selectors = (\<lambda>w. w),
      lock_acquire =
        (\<lambda>t w. (\<not> lock_busy w, w\<lparr>clock := (if lock_busy w then clock w + t else clock w)\<rparr>)),
      lock_release = (\<lambda>w. w),
      toggle_disable_autoscaling = (\<lambda>t w. w),
      toggle_enable_autoscaling = (\<lambda>w. w)\<rparr>"

definition demo_setup :: "int WorkerSetup" where
  "demo_setup =
     \<lparr>rate_of = (\<lambda>n. int (n div 3)),
      prescaling_of = None,
      precedence_sort_key = (\<lambda>node. task_count (agent node)),
      bootstrap_wait = 1,
      bootstrap_timeout = 5,
      disable_autoscaling = True,
      expected_duration = 1,
      health_check_interval = 1,
      ignore_pod_health = False\<rparr>"

definition demo_event :: MigrationEvent where
  "demo_event =
     \<lparr>cluster = ''mesos-test'', pool = ''bar'',
      condition_matches = (\<lambda>node. uptime (instance node) < 18500)\<rparr>"

definition no_limit :: "int \<Rightarrow> (world \<Rightarrow> world outcome) \<Rightarrow> world \<Rightarrow> world outcome" where
  "no_limit t routine w = routine w"


section \<open>Draining queue (clusterman/draining/queue.py)\<close>

text \<open>
  The module itself is not among the sources; its tests (tests/draining/queue_test.py)
  are. What follows is built from the specification and checked against those tests.
\<close>

datatype scheduler = Kubernetes | Mesos

record Host =
  instance_id :: string
  hostname :: string
  group_id :: string
  ip :: string
  sender :: string
  receipt_handle :: string
  agent_id :: string
  pool :: string
  scheduler :: scheduler
  draining_start_time :: int
  attempt :: nat

text \<open>
  The calls \<open>process_drain_queue\<close> makes, as the mocks of \<open>test_process_drain_queue\<close>
  see them. A termination submitted without a \<open>delay\<close> argument has the default 90.
\<close>

datatype call =
    GetHostToDrain
  | HostFromInstanceId string string
  | K8sDrain string bool
  | K8sUncordon string
  | MesosDrain "string list" int int
  | SubmitHostForTermination Host int
  | SubmitHostForDraining Host int nat
  | DeleteDrainMessages "Host list"

text \<open>
  The body \<open>submit_host_for_draining(host, delay, attempt)\<close> puts on the drain queue
  (\<open>test_submit_host_for_draining\<close>): the host's own fields and the given attempt.
\<close>

definition drain_message :: "Host \<Rightarrow> nat \<Rightarrow> Host" where
  "drain_message host n = host\<lparr>attempt := n\<rparr>"

text \<open>
  What the surroundings answer during one run: the message received, the clock, the
  re-resolution of the instance, and the outcome of the drivers (\<open>None\<close>: the driver
  raised).
\<close>

record answers =
  host_to_drain :: "Host option"
  now :: int
  host_from_instance_id :: "Host option"
  k8s_drain :: "bool option"
  mesos_drain :: "unit option"

record settings =
  MAX_DRAINING_TIME :: int
  DEFAULT_FORCE_TERMINATION :: bool
  MESOS_DRAIN_NANOSECONDS :: int

text \<open>
  Modelled from the spec: \<open>DrainingClient.process_drain_queue\<close> of
  clusterman/draining/queue.py, which is missing. The steps are those of section 4.D in
  their order: receive, hostname guard, dedupe, orphan check, expiry, drain, and the
  seeding of the TTL cache by a successful drain (4.C.3). The orphan check forwards the
  received host and resubmits the re-resolved one, as the test's assertions have it. The
  result is the calls made and the TTL cache afterwards.
\<close>

definition process_drain_queue ::
  "settings \<Rightarrow> answers \<Rightarrow> (string \<rightharpoonup> int) \<Rightarrow> call list \<times> (string \<rightharpoonup> int)" where
  "process_drain_queue cfg ans draining_host_ttl_cache =
     (case host_to_drain ans of
        None \<Rightarrow> ([GetHostToDrain], draining_host_ttl_cache)
      | Some host \<Rightarrow>
          if hostname host = [] then
            ([GetHostToDrain, SubmitHostForTermination host 0, DeleteDrainMessages [host]],
             draining_host_ttl_cache)
          else if draining_host_ttl_cache (instance_id host) \<noteq> None then
            ([GetHostToDrain, DeleteDrainMessages [host]], draining_host_ttl_cache)
          else if scheduler host = Kubernetes \<and> agent_id host = [] then
            (case host_from_instance_id ans of
               None \<Rightarrow>
                 ([GetHostToDrain, HostFromInstanceId (receipt_handle host) (instance_id host),
                   DeleteDrainMessages [host]], draining_host_ttl_cache)
             | Some fresh \<Rightarrow>
                 if agent_id fresh = [] then
                   ([GetHostToDrain, HostFromInstanceId (receipt_handle host) (instance_id host),
                     SubmitHostForTermination host 0, DeleteDrainMessages [host]],
                    draining_host_ttl_cache)
                 else
                   ([GetHostToDrain, HostFromInstanceId (receipt_handle host) (instance_id host),
                     SubmitHostForDraining fresh 0 (attempt host + 1), DeleteDrainMessages [host]],
                    draining_host_ttl_cache))
          else if MAX_DRAINING_TIME cfg < now ans - draining_start_time host then
            (case scheduler host of
               Kubernetes \<Rightarrow>
                 if DEFAULT_FORCE_TERMINATION cfg then
                   ([GetHostToDrain, SubmitHostForTermination host 0, DeleteDrainMessages [host]],
                    draining_host_ttl_cache)
                 else
                   ([GetHostToDrain, K8sUncordon (agent_id host), DeleteDrainMessages [host]],
                    draining_host_ttl_cache)
             | Mesos \<Rightarrow>
                 ([GetHostToDrain, SubmitHostForTermination host 0, DeleteDrainMessages [host]],
                  draining_host_ttl_cache))
          else
            (case scheduler host of
               Kubernetes \<Rightarrow>
                 (case k8s_drain ans of
                    Some True \<Rightarrow>
                      ([GetHostToDrain, K8sDrain (agent_id host) False,
                        SubmitHostForTermination host 0, DeleteDrainMessages [host]],
                       draining_host_ttl_cache(instance_id host \<mapsto> now ans))
                  | _ \<Rightarrow>
                      ([GetHostToDrain, K8sDrain (agent_id host) False,
                        SubmitHostForDraining host 0 (attempt host + 1),
                        DeleteDrainMessages [host]],
                       draining_host_ttl_cache))
             | Mesos \<Rightarrow>
                 (case mesos_drain ans of
                    Some u \<Rightarrow>
                      ([GetHostToDrain,
                        MesosDrain [hostname host @ ''|'' @ ip host]
                          (now ans * 1000000000) (MESOS_DRAIN_NANOSECONDS cfg),
                        SubmitHostForTermination host 90, DeleteDrainMessages [host]],
                       draining_host_ttl_cache(instance_id host \<mapsto> now ans))
                  | None \<Rightarrow>
                      ([GetHostToDrain,
                        MesosDrain [hostname host @ ''|'' @ ip host]
                          (now ans * 1000000000) (MESOS_DRAIN_NANOSECONDS cfg),
                        SubmitHostForDraining host 0 (attempt host + 1),
                        DeleteDrainMessages [host]],
                       draining_host_ttl_cache))))"

text \<open>
  Modelled from the spec: \<open>DrainingClient.clean_processing_hosts_cache\<close> of
  clusterman/draining/queue.py, which is missing. The cache maps an instance id to the
  timestamp it was seeded with (\<open>now()\<close> at a successful drain, see above), and the
  function "evicts entries strictly older than \<open>now - DRAIN_CACHE_SECONDS\<close>"
  (section 4.C.3, which calls this boundary-exclusive); every other entry stays as it is.
  \<open>DRAIN_CACHE_SECONDS\<close> is a constant of the missing module and is the first argument.
  Section 8 (B2) has the entry stamped exactly \<open>now - DRAIN_CACHE_SECONDS\<close> evicted, which
  the sentence of 4.C.3 does not allow; the model follows 4.C.3, the sentence that says
  what the function does. Neither sentence gives what \<open>test_clean_processing_hosts_cache\<close>
  expects (an entry one second old gone with \<open>DRAIN_CACHE_SECONDS\<close> patched to 60).
\<close>

definition clean_processing_hosts_cache ::
  "int \<Rightarrow> int \<Rightarrow> (string \<rightharpoonup> int) \<Rightarrow> (string \<rightharpoonup> int)" where
  "clean_processing_hosts_cache DRAIN_CACHE_SECONDS now_ts draining_host_ttl_cache =
     (\<lambda>instance_id.
        case draining_host_ttl_cache instance_id of
          None \<Rightarrow> None
        | Some ts \<Rightarrow> if ts < now_ts - DRAIN_CACHE_SECONDS then None else Some ts)"


definition test_host :: Host where
  "test_host =
     \<lparr>instance_id = ''i12345'', hostname = ''host1'', group_id = ''sfr1'', ip = ''10.1.1.1'',
      sender = ''mmb'', receipt_handle = ''aaaaa'', agent_id = ''agt123'', pool = ''default'',
      scheduler = Kubernetes, draining_start_time = 100, attempt = 1\<rparr>"

definition test_settings :: settings where
  "test_settings =
     \<lparr>MAX_DRAINING_TIME = 1800, DEFAULT_FORCE_TERMINATION = False,
      MESOS_DRAIN_NANOSECONDS = 1000000000\<rparr>"

definition test_answers :: "Host \<Rightarrow> Host option \<Rightarrow> bool \<Rightarrow> answers" where
  "test_answers host resolved drained =
     \<lparr>host_to_drain = Some host, now = 100, host_from_instance_id = resolved,
      k8s_drain = Some drained, mesos_drain = Some ()\<rparr>"


section \<open>What a run shows\<close>

text \<open>The values of the three flags at the successive \<open>Poll\<close>s of a run, oldest first.\<close>

fun latch_history :: "event list \<Rightarrow> (bool \<times> bool \<times> bool) list" where
  "latch_history [] = []"
| "latch_history (Poll d c p # evs) = (d, c, p) # latch_history evs"
| "latch_history (e # evs) = latch_history evs"

text \<open>Flag by flag, what is set on the left is set on the right.\<close>

definition latch_le :: "bool \<times> bool \<times> bool \<Rightarrow> bool \<times> bool \<times> bool \<Rightarrow> bool" where
  "latch_le l l' =
     (case (l, l') of ((d, c, p), (d', c', p')) \<Rightarrow> (d \<longrightarrow> d') \<and> (c \<longrightarrow> c') \<and> (p \<longrightarrow> p'))"

text \<open>
  How a monitoring run ends: with \<open>True\<close> exactly when its last event is a poll with all
  three flags set, with \<open>False\<close> exactly when its last event is a reading of the clock at
  or past the timeout, and with neither kind of event anywhere before the last. \<open>quiet\<close> is
  the last part alone.
\<close>

definition quiet :: "int \<Rightarrow> event list \<Rightarrow> bool" where
  "quiet timeout evs \<longleftrightarrow>
     (\<forall>e\<in>set evs. e \<noteq> Poll True True True \<and> (\<forall>t. e = Time t \<longrightarrow> t < timeout))"

definition ends_ok :: "int \<Rightarrow> bool option \<Rightarrow> event list \<Rightarrow> bool" where
  "ends_ok timeout r evs \<longleftrightarrow>
     (r = Some True \<longleftrightarrow> evs \<noteq> [] \<and> last evs = Poll True True True)
     \<and> (r = Some False \<longleftrightarrow> (\<exists>t. evs \<noteq> [] \<and> last evs = Time t \<and> timeout \<le> t))
     \<and> quiet timeout (butlast evs)"



text \<open>
  The collections of nodes handed to the successive \<open>_monitor_pool_health\<close> calls of a
  run (the \<open>drained\<close> argument), and the nodes submitted for draining, both in order.
\<close>

fun monitor_chunks :: "event list \<Rightarrow> ClusterNodeMetadata list list" where
  "monitor_chunks [] = []"
| "monitor_chunks (MonitorCall t chunk ig # evs) = chunk # monitor_chunks evs"
| "monitor_chunks (e # evs) = monitor_chunks evs"

fun submitted :: "event list \<Rightarrow> ClusterNodeMetadata list" where
  "submitted [] = []"
| "submitted (SubmitForDraining node # evs) = node # submitted evs"
| "submitted (e # evs) = submitted evs"

text \<open>The uptime worker's selector, with a threshold of 10000 seconds.\<close>

definition demo_selector :: "ClusterNodeMetadata \<Rightarrow> bool" where
  "demo_selector node \<longleftrightarrow> 10000 < uptime (instance node)"

section \<open>Migration conditions (clusterman/migration/event.py)\<close>

text \<open>
  The module is not among the sources; tests/migration/migration_event_test.py is. The
  traits, the operators and their names in a serialized condition are those of the
  specification and of the test's cases.
\<close>

datatype ConditionTrait = KERNEL | LSBRELEASE | INSTANCE_TYPE | UPTIME

datatype ConditionOperator = LT | LE | EQ | NE | GE | GT | IN | NOTIN

text \<open>
  A target in one of the flavours the traits are parsed to. The version types belong to
  the libraries \<open>semver\<close> and \<open>packaging\<close>, which are type parameters here.
\<close>

datatype ('sv, 'pv) target =
    Semver 'sv
  | Pep440 'pv
  | InstanceTypes "string list"
  | Seconds int

record ('sv, 'pv) MigrationCondition =
  trait :: ConditionTrait
  operator :: ConditionOperator
  target :: "('sv, 'pv) target"

record condition_dict =
  trait_entry :: string
  operator_entry :: string
  target_entry :: string

text \<open>
  What the condition model takes from outside the repository: the parser and the printer
  of each version library, and the table of instance types that exist.
\<close>

record ('sv, 'pv) libraries =
  semver_parse :: "string \<Rightarrow> 'sv option"
  semver_str :: "'sv \<Rightarrow> string"
  version_parse :: "string \<Rightarrow> 'pv option"
  version_str :: "'pv \<Rightarrow> string"
  known_instance_types :: "string list"

definition trait_value :: "ConditionTrait \<Rightarrow> string" where
  "trait_value t =
     (case t of KERNEL \<Rightarrow> ''kernel'' | LSBRELEASE \<Rightarrow> ''lsbrelease''
      | INSTANCE_TYPE \<Rightarrow> ''instance_type'' | UPTIME \<Rightarrow> ''uptime'')"

definition operator_value :: "ConditionOperator \<Rightarrow> string" where
  "operator_value op =
     (case op of LT \<Rightarrow> ''lt'' | LE \<Rightarrow> ''le'' | EQ \<Rightarrow> ''eq'' | NE \<Rightarrow> ''ne''
      | GE \<Rightarrow> ''ge'' | GT \<Rightarrow> ''gt'' | IN \<Rightarrow> ''in'' | NOTIN \<Rightarrow> ''notin'')"

text \<open>Looking an enumeration member up by its value, as \<open>ConditionTrait("kernel")\<close> does.\<close>

definition trait_of_value :: "string \<Rightarrow> error + ConditionTrait" where
  "trait_of_value s =
     (case filter (\<lambda>t. trait_value t = s) [KERNEL, LSBRELEASE, INSTANCE_TYPE, UPTIME] of
        [] \<Rightarrow> Inl ValueError | t # _ \<Rightarrow> Inr t)"

definition operator_of_value :: "string \<Rightarrow> error + ConditionOperator" where
  "operator_of_value s =
     (case filter (\<lambda>op. operator_value op = s) [LT, LE, EQ, NE, GE, GT, IN, NOTIN] of
        [] \<Rightarrow> Inl ValueError | op # _ \<Rightarrow> Inr op)"

text \<open>Python's \<open>str\<close> of a non-negative integer, and \<open>int\<close> of a string of digits.\<close>

definition digit_char :: "nat \<Rightarrow> char" where
  "digit_char d = char_of (48 + d)"

definition is_digit :: "char \<Rightarrow> bool" where
  "is_digit c \<longleftrightarrow> 48 \<le> (of_char c :: nat) \<and> (of_char c :: nat) \<le> 57"

definition digit_value :: "char \<Rightarrow> nat" where
  "digit_value c = of_char c - 48"

fun str_nat :: "nat \<Rightarrow> string" where
  "str_nat n = (if n < 10 then [digit_char n] else str_nat (n div 10) @ [digit_char (n mod 10)])"

definition str_int :: "int \<Rightarrow> string" where
  "str_int n = (if n < 0 then CHR ''-'' # str_nat (nat (- n)) else str_nat (nat n))"

definition int_of_digits :: "string \<Rightarrow> nat option" where
  "int_of_digits s =
     (if s \<noteq> [] \<and> list_all is_digit s
      then Some (foldl (\<lambda>a c. 10 * a + digit_value c) 0 s) else None)"

text \<open>\<open>sep.join(xs)\<close>, \<open>s.split(sep)\<close> for a one-character separator, and \<open>s.lower()\<close> on ASCII.\<close>

fun join :: "char \<Rightarrow> string list \<Rightarrow> string" where
  "join sep [] = []"
| "join sep [x] = x"
| "join sep (x # y # ys) = x @ sep # join sep (y # ys)"

fun split :: "char \<Rightarrow> string \<Rightarrow> string list" where
  "split sep [] = [[]]"
| "split sep (c # cs) =
     (if c = sep then [] # split sep cs
      else (case split sep cs of [] \<Rightarrow> [[c]] | w # ws \<Rightarrow> (c # w) # ws))"

definition lower :: "string \<Rightarrow> string" where
  "lower s =
     map (\<lambda>c. if 65 \<le> (of_char c :: nat) \<and> (of_char c :: nat) \<le> 90
               then char_of (of_char c + 32 :: nat) else c) s"

text \<open>
  The uptime target: seconds, written as digits, or a number of days or hours with the
  suffix \<open>d\<close> or \<open>h\<close>.
\<close>

definition parse_uptime :: "string \<Rightarrow> error + int" where
  "parse_uptime s =
     (case int_of_digits s of
        Some n \<Rightarrow> Inr (int n)
      | None \<Rightarrow>
          if s = [] then Inl ValueError
          else (case int_of_digits (butlast s) of
                  None \<Rightarrow> Inl ValueError
                | Some n \<Rightarrow>
                    if last s = CHR ''d'' then Inr (int n * 24 * 60 * 60)
                    else if last s = CHR ''h'' then Inr (int n * 60 * 60)
                    else Inl ValueError))"

definition expecting_collection :: "ConditionOperator \<Rightarrow> bool" where
  "expecting_collection op \<longleftrightarrow> op = IN \<or> op = NOTIN"

definition ordered_operator :: "ConditionOperator \<Rightarrow> bool" where
  "ordered_operator op \<longleftrightarrow> op = LT \<or> op = LE \<or> op = GE \<or> op = GT"

text \<open>
  Modelled from the spec: \<open>MigrationCondition.from_dict\<close> and \<open>MigrationCondition.to_dict\<close>
  of clusterman/migration/event.py, which is missing (section 4.A and the data model).
  Parsing fails with \<open>ValueError\<close> on an unknown trait or operator, on \<open>IN\<close>/\<open>NOTIN\<close> with
  a trait that is not list-valued, on an ordered operator with the list-valued trait, on
  a target that does not parse, and on an instance type that is not known. The target is
  parsed by trait: kernel by \<open>semver\<close>, lsbrelease by \<open>packaging\<close>, instance_type as the
  lower-cased items between commas, uptime as seconds. Serializing writes the names of the
  trait and the operator and the target as text: a list joined by commas, anything else
  by \<open>str\<close>. The cases of \<open>test_condition_from_dict\<close>, \<open>test_condition_from_dict_error\<close> and
  \<open>test_condition_to_dict\<close> hold of the model as far as they do not run a version library.
\<close>

definition parse_target ::
  "('sv, 'pv) libraries \<Rightarrow> ConditionTrait \<Rightarrow> string \<Rightarrow> error + ('sv, 'pv) target" where
  "parse_target libs t s =
     (case t of
        KERNEL \<Rightarrow> (case semver_parse libs s of None \<Rightarrow> Inl ValueError | Some v \<Rightarrow> Inr (Semver v))
      | LSBRELEASE \<Rightarrow>
          (case version_parse libs s of None \<Rightarrow> Inl ValueError | Some v \<Rightarrow> Inr (Pep440 v))
      | INSTANCE_TYPE \<Rightarrow>
          (let items = map lower (split CHR '','' s)
           in if list_all (\<lambda>x. x \<in> set (known_instance_types libs)) items
              then Inr (InstanceTypes items) else Inl ValueError)
      | UPTIME \<Rightarrow> (case parse_uptime s of Inl e \<Rightarrow> Inl e | Inr n \<Rightarrow> Inr (Seconds n)))"

definition from_dict ::
  "('sv, 'pv) libraries \<Rightarrow> condition_dict \<Rightarrow> error + ('sv, 'pv) MigrationCondition" where
  "from_dict libs d =
     (case trait_of_value (trait_entry d) of
        Inl e \<Rightarrow> Inl e
      | Inr t \<Rightarrow>
          (case operator_of_value (operator_entry d) of
             Inl e \<Rightarrow> Inl e
           | Inr op \<Rightarrow>
               if expecting_collection op \<and> t \<noteq> INSTANCE_TYPE then Inl ValueError
               else if ordered_operator op \<and> t = INSTANCE_TYPE then Inl ValueError
               else (case parse_target libs t (target_entry d) of
                       Inl e \<Rightarrow> Inl e
                     | Inr tg \<Rightarrow> Inr \<lparr>trait = t, operator = op, target = tg\<rparr>)))"

definition to_dict ::
  "('sv, 'pv) libraries \<Rightarrow> ('sv, 'pv) MigrationCondition \<Rightarrow> condition_dict" where
  "to_dict libs c =
     \<lparr>trait_entry = trait_value (trait c),
      operator_entry = operator_value (operator c),
      target_entry =
        (case target c of
           Semver v \<Rightarrow> semver_str libs v
         | Pep440 v \<Rightarrow> version_str libs v
         | InstanceTypes xs \<Rightarrow> join CHR '','' xs
         | Seconds n \<Rightarrow> str_int n)\<rparr>"

text \<open>
  A valid condition: the target has the flavour of the trait, the operator fits the
  trait, instance types are known, lower-case, free of commas and at least one, and an
  uptime is not negative.
\<close>

definition valid_condition ::
  "('sv, 'pv) libraries \<Rightarrow> ('sv, 'pv) MigrationCondition \<Rightarrow> bool" where
  "valid_condition libs c =
     (case (trait c, target c) of
        (KERNEL, Semver v) \<Rightarrow> \<not> expecting_collection (operator c)
      | (LSBRELEASE, Pep440 v) \<Rightarrow> \<not> expecting_collection (operator c)
      | (INSTANCE_TYPE, InstanceTypes xs) \<Rightarrow>
          \<not> ordered_operator (operator c) \<and> xs \<noteq> []
          \<and> list_all (\<lambda>x. x \<in> set (known_instance_types libs) \<and> lower x = x
                            \<and> CHR '','' \<notin> set x) xs
      | (UPTIME, Seconds n) \<Rightarrow> \<not> expecting_collection (operator c) \<and> 0 \<le> n
      | _ \<Rightarrow> False)"

text \<open>
  The libraries do their part: parsing what they printed gives the version back.
\<close>

definition libraries_round_trip :: "('sv, 'pv) libraries \<Rightarrow> bool" where
  "libraries_round_trip libs \<longleftrightarrow>
     (\<forall>v. semver_parse libs (semver_str libs v) = Some v)
     \<and> (\<forall>v. version_parse libs (version_str libs v) = Some v)"

text \<open>
  Stand-ins for the version libraries, good for running the cases that do not depend on
  them: a version is its text.
\<close>

definition text_libraries :: "(string, string) libraries" where
  "text_libraries =
     \<lparr>semver_parse = Some, semver_str = (\<lambda>v. v), version_parse = Some, version_str = (\<lambda>v. v),
      known_instance_types = [''m5.4xlarge'', ''r5.2xlarge'']\<rparr>"

subsection \<open>The monitoring loop\<close>

lemma latch_history_append: "latch_history (xs @ ys) = latch_history xs @ latch_history ys"
  by (induction xs rule: latch_history.induct) simp_all

lemma any_agent_unchanged_events:
  "any_agent_unchanged env ns w = (b, evs, w') \<Longrightarrow> e \<in> set evs \<Longrightarrow> \<exists>a. e = GetAgentMetadata a"
  by (induction ns arbitrary: w b evs w') (auto split: prod.splits if_splits)

lemma any_agent_unchanged_history:
  "any_agent_unchanged env ns w = (b, evs, w') \<Longrightarrow> latch_history evs = []"
  by (induction ns arbitrary: w b evs w') (auto split: prod.splits if_splits)

lemma poll_history:
  assumes "poll env drained ig d c p w = ((d', c', p'), evs, w')"
  shows "latch_history evs = [(d', c', p')]"
  using assms
  by (auto simp: poll_def Let_def latch_history_append split: prod.splits if_splits
           dest: any_agent_unchanged_history)

lemma poll_mono:
  assumes "poll env drained ig d c p w = ((d', c', p'), evs, w')"
  shows "latch_le (d, c, p) (d', c', p')"
  using assms
  by (auto simp: poll_def Let_def latch_le_def split: prod.splits if_splits)

lemma poll_empty_drained:
  assumes "poll env [] ig d c p w = ((d', c', p'), evs, w')"
  shows "d'"
  using assms
  by (auto simp: poll_def Let_def split: prod.splits if_splits)

lemma poll_events:
  assumes "poll env drained ig d c p w = ((d', c', p'), evs, w')"
  shows "\<exists>pre. evs = pre @ [Poll d' c' p']
           \<and> (\<forall>e\<in>set pre. (\<forall>t. e \<noteq> Time t) \<and> (\<forall>x y z. e \<noteq> Poll x y z))"
  using assms
  by (auto simp: poll_def Let_def split: prod.splits if_splits dest: any_agent_unchanged_events)

lemma latch_le_trans: "latch_le a b \<Longrightarrow> latch_le b c \<Longrightarrow> latch_le a c"
  by (auto simp: latch_le_def split: prod.splits)

lemma monitor_loop_sorted:
  "monitor_loop n env timeout drained interval ig d c p w = (r, evs, w')
   \<Longrightarrow> sorted_wrt latch_le ((d, c, p) # latch_history evs)"
proof (induction n arbitrary: d c p w r evs w')
  case 0
  then show ?case by simp
next
  case (Suc n)
  obtain t w0 where t: "time_time env w = (t, w0)" by (cases "time_time env w")
  show ?case
  proof (cases "t < timeout")
    case False
    with Suc.prems t show ?thesis by auto
  next
    case True
    obtain d' c' p' pe w1 where pl: "poll env drained ig d c p w0 = ((d', c', p'), pe, w1)"
      by (metis prod_cases3)
    note h = poll_history[OF pl] and m = poll_mono[OF pl]
    show ?thesis
    proof (cases "d' \<and> c' \<and> p'")
      case True
      with Suc.prems t \<open>t < timeout\<close> pl h m show ?thesis by auto
    next
      case False
      obtain r2 evs2 w3 where
        rec: "monitor_loop n env timeout drained interval ig d' c' p' (time_sleep env interval w1)
              = (r2, evs2, w3)"
        by (metis prod_cases3)
      from Suc.IH[OF rec] have s: "sorted_wrt latch_le ((d', c', p') # latch_history evs2)" .
      from Suc.prems t \<open>t < timeout\<close> pl False rec
      have evs: "evs = Time t # pe @ Sleep interval # evs2" by (auto simp: Let_def)
      have lh: "latch_history evs = (d', c', p') # latch_history evs2"
        by (simp add: evs latch_history_append h)
      show ?thesis using s m lh by (auto intro: latch_le_trans)
    qed
  qed
qed

lemma ends_ok_prefix:
  assumes "quiet timeout pre" "ends_ok timeout r evs" "evs \<noteq> []"
  shows "ends_ok timeout r (pre @ evs)"
proof -
  have l: "last (pre @ evs) = last evs" using assms(3) by simp
  have b: "set (butlast (pre @ evs)) = set pre \<union> set (butlast evs)"
    using assms(3) by (simp add: butlast_append)
  have ne: "(pre @ evs \<noteq> []) = (evs \<noteq> [])" using assms(3) by simp
  show ?thesis
    using assms(1,2) unfolding ends_ok_def quiet_def l b ne by (simp add: ball_Un)
qed

lemma ends_ok_none:
  assumes "quiet timeout pre" "pre \<noteq> []" "last pre = Sleep i"
  shows "ends_ok timeout None pre"
  using assms unfolding ends_ok_def quiet_def
  by (auto dest: in_set_butlastD)

lemma monitor_loop_ends:
  "monitor_loop n env timeout drained interval ig d c p w = (r, evs, w')
   \<Longrightarrow> ends_ok timeout r evs \<and> (r = None \<longleftrightarrow> evs = [] \<or> last evs = Sleep interval)"
proof (induction n arbitrary: d c p w r evs w')
  case 0
  then show ?case by (simp add: ends_ok_def quiet_def)
next
  case (Suc n)
  obtain t w0 where t: "time_time env w = (t, w0)" by (cases "time_time env w")
  show ?case
  proof (cases "t < timeout")
    case False
    with Suc.prems t have "r = Some False" "evs = [Time t]" by auto
    then show ?thesis using False by (simp add: ends_ok_def quiet_def)
  next
    case True
    obtain d' c' p' pe w1 where pl: "poll env drained ig d c p w0 = ((d', c', p'), pe, w1)"
      by (metis prod_cases3)
    from poll_events[OF pl] obtain pre where pe: "pe = pre @ [Poll d' c' p']"
      and pre: "\<forall>e\<in>set pre. (\<forall>t. e \<noteq> Time t) \<and> (\<forall>x y z. e \<noteq> Poll x y z)" by blast
    show ?thesis
    proof (cases "d' \<and> c' \<and> p'")
      case all: True
      from Suc.prems t True pl all
      have "r = Some True" "evs = (Time t # pre) @ [Poll True True True]"
        by (auto simp: pe)
      then show ?thesis using pre True unfolding ends_ok_def quiet_def
        by (simp add: butlast_append)
    next
      case False
      obtain r2 evs2 w3 where
        rec: "monitor_loop n env timeout drained interval ig d' c' p' (time_sleep env interval w1)
              = (r2, evs2, w3)"
        by (metis prod_cases3)
      note ih = Suc.IH[OF rec]
      let ?pre = "Time t # pre @ [Poll d' c' p', Sleep interval]"
      from Suc.prems t \<open>t < timeout\<close> pl False rec
      have evs: "evs = ?pre @ evs2" and r: "r = r2"
        by (auto simp: Let_def pe)
      have q: "quiet timeout ?pre" using pre False \<open>t < timeout\<close> unfolding quiet_def by auto
      show ?thesis
      proof (cases "evs2 = []")
        case True
        with ih have "r2 = None" by simp
        then show ?thesis using ends_ok_none[OF q, of interval] True by (simp add: evs r)
      next
        case ne: False
        have "ends_ok timeout r evs" unfolding evs r using ends_ok_prefix[OF q _ ne] ih by blast
        moreover have "last evs = last evs2" using ne by (simp add: evs)
        ultimately show ?thesis using ih ne by (simp add: r evs)
      qed
    qed
  qed
qed

text \<open>
  C2. In one call of \<open>_monitor_pool_health\<close> a flag that is set at some poll is set at
  every later poll; the call returns \<open>True\<close> exactly at the first poll at which all three
  flags are set (that poll is its last event, no earlier poll has all three), and returns
  \<open>False\<close> exactly at the first reading of the clock that is at or past the timeout. So a
  \<open>True\<close> result comes with one poll at which the three flags hold together.
\<close>

theorem monitor_pool_health_latches:
  assumes "monitor_pool_health fuel env timeout drained interval ig w = (r, evs, w')"
  shows "(\<forall>i j. i < j \<and> j < length (latch_history evs)
            \<longrightarrow> latch_le (latch_history evs ! i) (latch_history evs ! j))
       \<and> (r = Some True \<longleftrightarrow> evs \<noteq> [] \<and> last evs = Poll True True True)
       \<and> (r = Some False \<longleftrightarrow> (\<exists>t. evs \<noteq> [] \<and> last evs = Time t \<and> timeout \<le> t))
       \<and> (\<forall>e\<in>set (butlast evs). e \<noteq> Poll True True True \<and> (\<forall>t. e = Time t \<longrightarrow> t < timeout))"
proof -
  from assms have run: "monitor_loop fuel env timeout drained interval ig False False False w
                        = (r, evs, w')"
    by (simp add: monitor_pool_health_def)
  from monitor_loop_sorted[OF run] have "sorted_wrt latch_le (latch_history evs)" by simp
  then have mono: "\<forall>i j. i < j \<and> j < length (latch_history evs)
                     \<longrightarrow> latch_le (latch_history evs ! i) (latch_history evs ! j)"
    by (simp add: sorted_wrt_iff_nth_less)
  from monitor_loop_ends[OF run] have "ends_ok timeout r evs" by blast
  with mono show ?thesis unfolding ends_ok_def quiet_def by blast
qed

lemma demo_monitor_run:
  "monitor_pool_health 10 demo_env 100 [mk_node ''a'' 3 30] 1 False \<lparr>clock = 0, lock_busy = False\<rparr>
   = (Some True,
      [Time 0, ReloadState True, GetAgentMetadata ''a'', Poll False False False, Sleep 1,
       Time 1, ReloadState True, GetAgentMetadata ''a'', Poll False False False, Sleep 1,
       Time 2, ReloadState True, GetAgentMetadata ''a'', IsCapacitySatisfied False,
       HasEnoughCapacityForPods False, Poll True False False, Sleep 1,
       Time 3, ReloadState True, IsCapacitySatisfied True, HasEnoughCapacityForPods False,
       Poll True True False, Sleep 1,
       Time 4, ReloadState True, HasEnoughCapacityForPods True, Poll True True True],
      \<lparr>clock = 4, lock_busy = False\<rparr>)"
  by code_simp

theorem monitor_pool_health_latches_witness:
  "fst (monitor_pool_health 10 demo_env 100 [mk_node ''a'' 3 30] 1 False
         \<lparr>clock = 0, lock_busy = False\<rparr>) = Some True
   \<and> latch_le (False, False, False) (True, False, False)
   \<and> latch_le (True, False, False) (True, True, True)"
  using monitor_pool_health_latches[OF demo_monitor_run]
  by (simp add: demo_monitor_run latch_le_def)

text \<open>
  C8. With nothing to drain, the first poll of \<open>_monitor_pool_health\<close> sets
  \<open>draining_happened\<close>, whatever the manager and the connector answer: the first entry of
  the flag history has its first component set. (There is a first poll as soon as the
  clock is before the timeout at entry.)
\<close>

theorem empty_drained_latches_at_first_poll:
  assumes "time_time env w = (t, w0)" and "t < timeout" and "0 < fuel"
    and "monitor_pool_health fuel env timeout [] interval ig w = (r, evs, w')"
  shows "\<exists>c p rest. latch_history evs = (True, c, p) # rest"
proof -
  from \<open>0 < fuel\<close> obtain n where fuel: "fuel = Suc n" by (cases fuel) auto
  obtain d' c' p' pe w1 where
    pl: "poll env [] ig False False False w0 = ((d', c', p'), pe, w1)"
    by (metis prod_cases3)
  have d': "d'" using poll_empty_drained[OF pl] .
  have h: "latch_history pe = [(d', c', p')]" using poll_history[OF pl] .
  obtain r2 evs2 w3 where
    rec: "monitor_loop n env timeout [] interval ig d' c' p' (time_sleep env interval w1)
          = (r2, evs2, w3)"
    by (metis prod_cases3)
  have "latch_history evs = (d', c', p') # (if d' \<and> c' \<and> p' then [] else latch_history evs2)"
    using assms(1,2,4) pl rec h
    by (auto simp: monitor_pool_health_def fuel Let_def latch_history_append)
  with d' show ?thesis by auto
qed

lemma demo_empty_run:
  "monitor_pool_health 1 demo_env 100 [] 1 True \<lparr>clock = 0, lock_busy = False\<rparr>
   = (None, [Time 0, ReloadState False, IsCapacitySatisfied False, Poll True False True, Sleep 1],
      \<lparr>clock = 1, lock_busy = False\<rparr>)"
  by code_simp

theorem empty_drained_latches_at_first_poll_witness:
  "\<exists>c p rest.
     latch_history [Time 0, ReloadState False, IsCapacitySatisfied False, Poll True False True,
                    Sleep 1] = (True, c, p) # rest"
  using empty_drained_latches_at_first_poll
          [of demo_env "\<lparr>clock = 0, lock_busy = False\<rparr>" 0 "\<lparr>clock = 0, lock_busy = False\<rparr>"
              100 1 1 True, OF _ _ _ demo_empty_run]
  by (simp add: demo_env_def)

text \<open>
  C10. Called when the clock is already at or past the timeout, \<open>_monitor_pool_health\<close>
  returns \<open>False\<close> at once: the reading of the clock is the only thing it does, so there is
  no reload, no question to the manager or the connector and no sleep, and the world is
  as that one reading left it.
\<close>

theorem monitor_pool_health_timeout_passed:
  assumes "time_time env w = (t, w0)" and "timeout \<le> t" and "0 < fuel"
  shows "monitor_pool_health fuel env timeout drained interval ig w = (Some False, [Time t], w0)"
proof -
  from \<open>0 < fuel\<close> obtain n where "fuel = Suc n" by (cases fuel) auto
  with assms(1,2) show ?thesis by (simp add: monitor_pool_health_def)
qed

theorem monitor_pool_health_timeout_passed_witness:
  "monitor_pool_health 1 demo_env 5 demo_pool 1 False \<lparr>clock = 5, lock_busy = False\<rparr>
   = (Some False, [Time 5], \<lparr>clock = 5, lock_busy = False\<rparr>)"
  using monitor_pool_health_timeout_passed
          [of demo_env "\<lparr>clock = 5, lock_busy = False\<rparr>" 5 "\<lparr>clock = 5, lock_busy = False\<rparr>" 5 1
              demo_pool 1 False]
  by (simp add: demo_env_def)

subsection \<open>Chunked draining\<close>

lemma monitor_chunks_append: "monitor_chunks (xs @ ys) = monitor_chunks xs @ monitor_chunks ys"
  by (induction xs rule: monitor_chunks.induct) simp_all

lemma submitted_append: "submitted (xs @ ys) = submitted xs @ submitted ys"
  by (induction xs rule: submitted.induct) simp_all

lemma poll_plain:
  assumes "poll env drained ig d c p w = (l, evs, w')"
  shows "monitor_chunks evs = [] \<and> submitted evs = [] \<and> (\<forall>b. MonitorReturn b \<notin> set evs)"
proof -
  have a: "monitor_chunks xs = [] \<and> submitted xs = [] \<and> (\<forall>b. MonitorReturn b \<notin> set xs)"
    if "any_agent_unchanged env ns v = (b, xs, v')" for ns v b xs v'
    using that by (induction ns arbitrary: v b xs v') (auto split: prod.splits if_splits)
  show ?thesis using assms
    by (auto simp: poll_def Let_def monitor_chunks_append submitted_append
             split: prod.splits if_splits dest: a)
qed

lemma monitor_loop_plain:
  "monitor_loop n env timeout drained interval ig d c p w = (r, evs, w')
   \<Longrightarrow> monitor_chunks evs = [] \<and> submitted evs = [] \<and> (\<forall>b. MonitorReturn b \<notin> set evs)"
proof (induction n arbitrary: d c p w r evs w')
  case 0
  then show ?case by simp
next
  case (Suc n)
  obtain t w0 where t: "time_time env w = (t, w0)" by (cases "time_time env w")
  obtain l pe w1 where pl: "poll env drained ig d c p w0 = (l, pe, w1)"
    by (metis prod_cases3)
  obtain d' c' p' where l: "l = (d', c', p')" by (metis prod_cases3)
  obtain r2 evs2 w3 where
    rec: "monitor_loop n env timeout drained interval ig d' c' p' (time_sleep env interval w1)
          = (r2, evs2, w3)"
    by (metis prod_cases3)
  note a = poll_plain[OF pl] and b = Suc.IH[OF rec]
  have "evs = [Time t] \<or> evs = Time t # pe \<or> evs = Time t # pe @ Sleep interval # evs2"
    using Suc.prems t pl l rec by (auto simp: Let_def split: if_splits)
  then show ?case using a b
    by (auto simp: monitor_chunks_append submitted_append)
qed

lemma submit_chunk_plain:
  "submit_chunk env ns w = (evs, w')
   \<Longrightarrow> monitor_chunks evs = [] \<and> submitted evs = ns \<and> (\<forall>b. MonitorReturn b \<notin> set evs)"
  by (induction ns arbitrary: w evs w') (auto split: prod.splits)

text \<open>
  The loop over the indices: the monitored chunks are the slices at the first \<open>m\<close>
  indices, all of them when the loop runs to its end; whatever was submitted is in those
  slices; and a failed health check is followed by the stop of the timer and nothing else.
\<close>

lemma drain_chunks_trace:
  "drain_chunks fuel env setup selected chunk idxs w = (r, evs, w')
   \<Longrightarrow> (\<exists>m\<le>length idxs.
          monitor_chunks evs = map (\<lambda>i. take (nat chunk) (drop i selected)) (take m idxs)
          \<and> (r = Some (Inr True) \<longrightarrow> m = length idxs))
       \<and> submitted evs = concat (monitor_chunks evs)
       \<and> (r \<noteq> None \<longrightarrow> evs \<noteq> [] \<and> last evs = TimerStop)
       \<and> (r \<noteq> None \<longrightarrow> (\<forall>e. r \<noteq> Some (Inl e)))
       \<and> (MonitorReturn False \<in> set evs
            \<longrightarrow> r = Some (Inr False)
                \<and> (\<exists>pre. evs = pre @ [MonitorReturn False, TimerStop]
                          \<and> MonitorReturn False \<notin> set pre))"
proof (induction idxs arbitrary: w r evs w')
  case Nil
  then have "r = Some (Inr True)" "evs = [TimerStop]" by simp_all
  then show ?case by simp
next
  case (Cons i rest)
  obtain start_time w1 where t: "time_time env w = (start_time, w1)"
    by (cases "time_time env w")
  let ?chunk = "take (nat chunk) (drop i selected)"
  obtain es w2 where sc: "submit_chunk env ?chunk w1 = (es, w2)"
    by (cases "submit_chunk env ?chunk w1")
  obtain h em w4 where
    mo: "monitor_pool_health fuel env (start_time + bootstrap_timeout setup) ?chunk
           (health_check_interval setup) (ignore_pod_health setup)
           (time_sleep env (bootstrap_wait setup) w2) = (h, em, w4)"
    by (metis prod_cases3)
  let ?head = "Time start_time # es
               @ [Sleep (bootstrap_wait setup),
                  MonitorCall (start_time + bootstrap_timeout setup) ?chunk (ignore_pod_health setup)]
               @ em"
  from mo have pm: "monitor_chunks em = [] \<and> submitted em = [] \<and> (\<forall>b. MonitorReturn b \<notin> set em)"
    unfolding monitor_pool_health_def by (rule monitor_loop_plain)
  note ps = submit_chunk_plain[OF sc]
  have head_chunks: "monitor_chunks ?head = [?chunk]"
    using pm ps by (simp add: monitor_chunks_append)
  have head_sub: "submitted ?head = ?chunk"
    using pm ps by (simp add: submitted_append)
  have head_ret: "MonitorReturn b \<notin> set ?head" for b
    using pm ps by auto
  show ?case
  proof (cases h)
    case None
    with Cons.prems t sc mo have "r = None" "evs = ?head" by (auto simp: Let_def)
    then show ?thesis using head_chunks head_sub head_ret
      by (auto intro!: exI[of _ "Suc 0"])
  next
    case (Some healthy)
    show ?thesis
    proof (cases healthy)
      case False
      with Some Cons.prems t sc mo
      have r: "r = Some (Inr False)" and evs: "evs = ?head @ [MonitorReturn False, TimerStop]"
        by (auto simp: Let_def)
      have "monitor_chunks evs = [?chunk]" "submitted evs = ?chunk"
        unfolding evs using head_chunks head_sub
        by (simp_all only: monitor_chunks_append submitted_append, simp_all)
      moreover have "\<exists>pre. evs = pre @ [MonitorReturn False, TimerStop]
                        \<and> MonitorReturn False \<notin> set pre"
        using evs head_ret by blast
      moreover have "evs \<noteq> []" "last evs = TimerStop" by (simp_all add: evs)
      ultimately show ?thesis using r
        by (auto intro!: exI[of _ "Suc 0"])
    next
      case True
      obtain r2 evs2 w5 where
        rec: "drain_chunks fuel env setup selected chunk rest w4 = (r2, evs2, w5)"
        by (metis prod_cases3)
      note ih = Cons.IH[OF rec]
      from True Some Cons.prems t sc mo rec
      have r: "r = r2" and evs: "evs = ?head @ MonitorReturn True # evs2"
        by (auto simp: Let_def)
      from ih obtain m where m: "m \<le> length rest"
        "monitor_chunks evs2 = map (\<lambda>i. take (nat chunk) (drop i selected)) (take m rest)"
        "r2 = Some (Inr True) \<longrightarrow> m = length rest" by blast
      have mc: "monitor_chunks evs = ?chunk # monitor_chunks evs2"
        unfolding evs using head_chunks by (simp only: monitor_chunks_append, simp)
      have sb: "submitted evs = ?chunk @ submitted evs2"
        unfolding evs using head_sub by (simp only: submitted_append, simp)
      have p1: "\<exists>m\<le>length (i # rest).
          monitor_chunks evs = map (\<lambda>i. take (nat chunk) (drop i selected)) (take m (i # rest))
          \<and> (r = Some (Inr True) \<longrightarrow> m = length (i # rest))"
        using m mc r by (intro exI[of _ "Suc m"]) simp
      have p2: "submitted evs = concat (monitor_chunks evs)"
        using ih mc sb by simp
      have p3: "r \<noteq> None \<longrightarrow> evs \<noteq> [] \<and> last evs = TimerStop"
        using ih r by (auto simp: evs)
      have p4: "r \<noteq> None \<longrightarrow> (\<forall>e. r \<noteq> Some (Inl e))" using ih r by simp
      have p5: "MonitorReturn False \<in> set evs
            \<longrightarrow> r = Some (Inr False)
                \<and> (\<exists>pre. evs = pre @ [MonitorReturn False, TimerStop]
                          \<and> MonitorReturn False \<notin> set pre)"
      proof
        assume "MonitorReturn False \<in> set evs"
        then have in2: "MonitorReturn False \<in> set evs2" using head_ret[of False] by (auto simp: evs)
        with ih obtain pre where "r2 = Some (Inr False)"
          "evs2 = pre @ [MonitorReturn False, TimerStop]" "MonitorReturn False \<notin> set pre" by blast
        then have "evs = (?head @ MonitorReturn True # pre) @ [MonitorReturn False, TimerStop]"
          "MonitorReturn False \<notin> set (?head @ MonitorReturn True # pre)"
          using head_ret[of False] by (simp_all add: evs)
        then show "r = Some (Inr False)
                \<and> (\<exists>pre. evs = pre @ [MonitorReturn False, TimerStop]
                          \<and> MonitorReturn False \<notin> set pre)"
          using \<open>r2 = Some (Inr False)\<close> r by blast
      qed
      from p1 p2 p3 p4 p5 show ?thesis by blast
    qed
  qed
qed


lemma range_from_zero_nth:
  assumes "0 < step" and "k < length (range_from_zero n step)"
  shows "range_from_zero n step ! k = k * nat step" and "k * nat step < n"
proof -
  from assms have k: "k < (n + nat step - 1) div nat step"
    by (simp add: range_from_zero_def)
  with assms(1) show "range_from_zero n step ! k = k * nat step"
    by (simp add: range_from_zero_def)
  from assms(1) have s: "0 < nat step" by simp
  from k have "Suc k \<le> (n + nat step - 1) div nat step" by simp
  then have "Suc k * nat step \<le> n + nat step - 1"
    using s by (simp only: less_eq_div_iff_mult_less_eq)
  then show "k * nat step < n" using s by simp
qed

lemma concat_slices:
  "concat (map (\<lambda>k. take s (drop (k * s) xs)) [0..<K]) = take (K * s) xs"
proof (induction K)
  case 0
  show ?case by simp
next
  case (Suc K)
  have "take (K * s) xs @ take s (drop (K * s) xs) = take (K * s + s) xs"
    by (simp add: take_add)
  with Suc show ?case by (simp add: add.commute)
qed

lemma range_from_zero_covers:
  assumes "0 < step"
  shows "concat (map (\<lambda>i. take (nat step) (drop i xs)) (range_from_zero (length xs) step)) = xs"
proof -
  let ?s = "nat step" and ?n = "length xs"
  from assms have s: "0 < ?s" by simp
  have "?n + ?s - 1 = ((?n + ?s - 1) div ?s) * ?s + (?n + ?s - 1) mod ?s" by simp
  moreover have "(?n + ?s - 1) mod ?s < ?s" using s by simp
  ultimately have "?n \<le> ((?n + ?s - 1) div ?s) * ?s" by linarith
  then show ?thesis
    using assms by (simp add: range_from_zero_def comp_def concat_slices)
qed

text \<open>
  C6. The chunk size is \<open>rate.of\<close> of the number of all nodes \<open>get_node_metadatas\<close>
  returned, taken before the selector is applied, and the same for every chunk: the
  \<open>k\<close>-th collection handed to \<open>_monitor_pool_health\<close> is the slice of that size at
  offset \<open>k\<close> times the size of the sorted selection. A slice is never empty and is
  shorter than the size only where the selection ends. When the size is positive and the
  run returns \<open>True\<close>, the slices put together are the whole sorted selection.
\<close>

theorem drain_node_selection_chunks:
  assumes run: "drain_node_selection fuel env selector worker_setup w = (r, evs, w')"
    and nodes: "get_node_metadatas env w = (nodes, w1)"
  defines "selected \<equiv> sort_key (precedence_sort_key worker_setup) (filter selector nodes)"
  defines "chunk \<equiv> rate_of worker_setup (length nodes)"
  shows "(\<forall>k. k < length (monitor_chunks evs) \<longrightarrow>
            monitor_chunks evs ! k = take (nat chunk) (drop (k * nat chunk) selected)
            \<and> monitor_chunks evs ! k \<noteq> []
            \<and> (length (monitor_chunks evs ! k) = nat chunk
                \<or> length selected < (k + 1) * nat chunk))
       \<and> (0 < chunk \<and> r = Some (Inr True) \<longrightarrow> concat (monitor_chunks evs) = selected)"
proof (cases "selected = [] \<or> chunk \<le> 0")
  case True
  have "monitor_chunks evs = []"
  proof (cases "selected = [] \<or> chunk = 0")
    case True
    with run nodes show ?thesis
      by (auto simp: drain_node_selection_def Let_def selected_def chunk_def split: if_splits)
  next
    case False
    with True have neg: "chunk < 0" and ne: "selected \<noteq> []" by auto
    then have "range_from_zero (length selected) chunk = []" by (simp add: range_from_zero_def)
    with run nodes neg ne show ?thesis
      by (auto simp: drain_node_selection_def Let_def selected_def chunk_def)
  qed
  moreover have "\<not> (0 < chunk \<and> r = Some (Inr True)) \<or> selected = []"
    using True by auto
  ultimately show ?thesis by auto
next
  case False
  then have ne: "selected \<noteq> []" and pos: "0 < chunk" by auto
  let ?idxs = "range_from_zero (length selected) chunk"
  obtain r2 evs2 w2 where
    dc: "drain_chunks fuel env worker_setup selected chunk ?idxs w1 = (r2, evs2, w2)"
    by (metis prod_cases3)
  from run nodes ne pos dc
  have evs: "evs = GetNodeMetadatas # TimerStart # evs2" and r: "r = r2"
    by (auto simp: drain_node_selection_def Let_def selected_def chunk_def)
  from drain_chunks_trace[OF dc] obtain m where m: "m \<le> length ?idxs"
    and mc: "monitor_chunks evs2 = map (\<lambda>i. take (nat chunk) (drop i selected)) (take m ?idxs)"
    and full: "r2 = Some (Inr True) \<longrightarrow> m = length ?idxs"
    by blast
  have mce: "monitor_chunks evs = monitor_chunks evs2" by (simp add: evs)
  have each: "monitor_chunks evs ! k = take (nat chunk) (drop (k * nat chunk) selected)
            \<and> monitor_chunks evs ! k \<noteq> []
            \<and> (length (monitor_chunks evs ! k) = nat chunk
                \<or> length selected < (k + 1) * nat chunk)"
    if k: "k < length (monitor_chunks evs)" for k
  proof -
    from k have km: "k < m" and kl: "k < length ?idxs" using m by (simp_all add: mce mc)
    note idx = range_from_zero_nth[OF pos kl]
    have a: "monitor_chunks evs ! k = take (nat chunk) (drop (k * nat chunk) selected)"
      using km kl idx(1) m by (simp add: mce mc)
    have b: "monitor_chunks evs ! k \<noteq> []"
      unfolding a using idx(2) pos by simp
    have c: "length (monitor_chunks evs ! k) = nat chunk
                \<or> length selected < (k + 1) * nat chunk"
      unfolding a by (simp add: min_def) arith
    from a b c show ?thesis by blast
  qed
  have whole: "concat (monitor_chunks evs) = selected" if "r = Some (Inr True)"
  proof -
    from that full r have "m = length ?idxs" by simp
    then show ?thesis using range_from_zero_covers[OF pos, of selected] by (simp add: mce mc)
  qed
  from each whole show ?thesis by blast
qed

lemma demo_drain_run:
  "drain_node_selection 10 demo_env demo_selector demo_setup \<lparr>clock = 0, lock_busy = False\<rparr>
   = (Some (Inr True),
      [GetNodeMetadatas, TimerStart, Time 0,
       SubmitForDraining (mk_node ''a3'' 24 17000), GaugeSet 17000, CounterCount,
       SubmitForDraining (mk_node ''a2'' 26 18000), GaugeSet 18000, CounterCount,
       Sleep 1, MonitorCall 5 [mk_node ''a3'' 24 17000, mk_node ''a2'' 26 18000] False,
       Time 1, ReloadState True, GetAgentMetadata ''a3'', Poll False False False, Sleep 1,
       Time 2, ReloadState True, GetAgentMetadata ''a3'', GetAgentMetadata ''a2'',
       IsCapacitySatisfied False, HasEnoughCapacityForPods False, Poll True False False, Sleep 1,
       Time 3, ReloadState True, IsCapacitySatisfied True, HasEnoughCapacityForPods False,
       Poll True True False, Sleep 1,
       Time 4, ReloadState True, HasEnoughCapacityForPods True, Poll True True True,
       MonitorReturn True, Time 4,
       SubmitForDraining (mk_node ''a1'' 28 19000), GaugeSet 19000, CounterCount,
       SubmitForDraining (mk_node ''a0'' 30 20000), GaugeSet 20000, CounterCount,
       Sleep 1, MonitorCall 9 [mk_node ''a1'' 28 19000, mk_node ''a0'' 30 20000] False,
       Time 5, ReloadState True, GetAgentMetadata ''a1'', GetAgentMetadata ''a0'',
       IsCapacitySatisfied True, HasEnoughCapacityForPods True, Poll True True True,
       MonitorReturn True, TimerStop],
      \<lparr>clock = 5, lock_busy = False\<rparr>)"
  by code_simp

lemma demo_nodes:
  "get_node_metadatas demo_env \<lparr>clock = 0, lock_busy = False\<rparr>
   = (demo_pool, \<lparr>clock = 0, lock_busy = False\<rparr>)"
  by (simp add: demo_env_def)

lemma demo_selected:
  "sort_key (precedence_sort_key demo_setup) (filter demo_selector demo_pool)
   = [mk_node ''a3'' 24 17000, mk_node ''a2'' 26 18000, mk_node ''a1'' 28 19000,
      mk_node ''a0'' 30 20000]"
  by code_simp

lemma demo_rate: "rate_of demo_setup (length demo_pool) = 2"
  by code_simp

text \<open>
  Six nodes in the pool, four of them selected, \<open>rate.of(n) = n div 3\<close>: the chunks have
  two nodes (a third of the pool), not one (a third of the selection).
\<close>

theorem drain_node_selection_chunks_witness:
  "monitor_chunks (fst (snd (drain_node_selection 10 demo_env demo_selector demo_setup
                               \<lparr>clock = 0, lock_busy = False\<rparr>))) ! 1
     = [mk_node ''a1'' 28 19000, mk_node ''a0'' 30 20000]
   \<and> concat (monitor_chunks (fst (snd (drain_node_selection 10 demo_env demo_selector demo_setup
                               \<lparr>clock = 0, lock_busy = False\<rparr>))))
     = [mk_node ''a3'' 24 17000, mk_node ''a2'' 26 18000, mk_node ''a1'' 28 19000,
        mk_node ''a0'' 30 20000]"
  using drain_node_selection_chunks[OF demo_drain_run demo_nodes]
  by (simp add: demo_drain_run demo_selected demo_rate)

text \<open>
  C7. When a \<open>_monitor_pool_health\<close> call of \<open>_drain_node_selection\<close> returns \<open>False\<close>,
  the run ends there: the only thing that follows is the stop of the job timer, the
  result is the value \<open>False\<close> and not an exception, and the nodes submitted for draining
  are those of the chunks monitored so far, the failed one being the last.
\<close>

theorem drain_node_selection_stops_when_unhealthy:
  assumes run: "drain_node_selection fuel env selector worker_setup w = (r, evs, w')"
    and failed: "MonitorReturn False \<in> set evs"
  shows "r = Some (Inr False)
       \<and> (\<exists>pre. evs = pre @ [MonitorReturn False, TimerStop] \<and> MonitorReturn False \<notin> set pre)
       \<and> submitted evs = concat (monitor_chunks evs)"
proof -
  obtain nodes w1 where nodes: "get_node_metadatas env w = (nodes, w1)"
    by (cases "get_node_metadatas env w")
  let ?selected = "sort_key (precedence_sort_key worker_setup) (filter selector nodes)"
  let ?chunk = "rate_of worker_setup (length nodes)"
  have ne: "?selected \<noteq> []" and nz: "?chunk \<noteq> 0"
    using run nodes failed by (auto simp: drain_node_selection_def Let_def split: if_splits)
  obtain r2 evs2 w2 where
    dc: "drain_chunks fuel env worker_setup ?selected ?chunk
           (range_from_zero (length ?selected) ?chunk) w1 = (r2, evs2, w2)"
    by (metis prod_cases3)
  from run nodes ne nz dc
  have evs: "evs = [GetNodeMetadatas, TimerStart] @ evs2" and r: "r = r2"
    by (auto simp: drain_node_selection_def Let_def)
  from failed have in2: "MonitorReturn False \<in> set evs2" by (simp add: evs)
  from drain_chunks_trace[OF dc] in2 obtain pre where
    "r2 = Some (Inr False)" "evs2 = pre @ [MonitorReturn False, TimerStop]"
    "MonitorReturn False \<notin> set pre" and sub: "submitted evs2 = concat (monitor_chunks evs2)"
    by blast
  then have "evs = ([GetNodeMetadatas, TimerStart] @ pre) @ [MonitorReturn False, TimerStop]"
    "MonitorReturn False \<notin> set ([GetNodeMetadatas, TimerStart] @ pre)"
    by (simp_all add: evs)
  then have "\<exists>pre. evs = pre @ [MonitorReturn False, TimerStop] \<and> MonitorReturn False \<notin> set pre"
    by blast
  moreover have "submitted evs = concat (monitor_chunks evs)" using sub by (simp add: evs)
  ultimately show ?thesis using r \<open>r2 = Some (Inr False)\<close> by blast
qed

lemma demo_unhealthy_run:
  "drain_node_selection 10 demo_env demo_selector (demo_setup\<lparr>bootstrap_timeout := 1\<rparr>)
     \<lparr>clock = 0, lock_busy = False\<rparr>
   = (Some (Inr False),
      [GetNodeMetadatas, TimerStart, Time 0,
       SubmitForDraining (mk_node ''a3'' 24 17000), GaugeSet 17000, CounterCount,
       SubmitForDraining (mk_node ''a2'' 26 18000), GaugeSet 18000, CounterCount,
       Sleep 1, MonitorCall 1 [mk_node ''a3'' 24 17000, mk_node ''a2'' 26 18000] False,
       Time 1, MonitorReturn False, TimerStop],
      \<lparr>clock = 1, lock_busy = False\<rparr>)"
  by code_simp

theorem drain_node_selection_stops_when_unhealthy_witness:
  "fst (drain_node_selection 10 demo_env demo_selector (demo_setup\<lparr>bootstrap_timeout := 1\<rparr>)
          \<lparr>clock = 0, lock_busy = False\<rparr>) = Some (Inr False)
   \<and> submitted (fst (snd (drain_node_selection 10 demo_env demo_selector
                             (demo_setup\<lparr>bootstrap_timeout := 1\<rparr>)
                             \<lparr>clock = 0, lock_busy = False\<rparr>)))
     = [mk_node ''a3'' 24 17000, mk_node ''a2'' 26 18000]"
proof -
  have "MonitorReturn False \<in> set (fst (snd (drain_node_selection 10 demo_env demo_selector
          (demo_setup\<lparr>bootstrap_timeout := 1\<rparr>) \<lparr>clock = 0, lock_busy = False\<rparr>)))"
    by (simp add: demo_unhealthy_run)
  then have "MonitorReturn False \<in> set
      [GetNodeMetadatas, TimerStart, Time 0,
       SubmitForDraining (mk_node ''a3'' 24 17000), GaugeSet 17000, CounterCount,
       SubmitForDraining (mk_node ''a2'' 26 18000), GaugeSet 18000, CounterCount,
       Sleep 1, MonitorCall 1 [mk_node ''a3'' 24 17000, mk_node ''a2'' 26 18000] False,
       Time 1, MonitorReturn False, TimerStop]"
    by (simp only: demo_unhealthy_run fst_conv snd_conv)
  from drain_node_selection_stops_when_unhealthy[OF demo_unhealthy_run this]
  show ?thesis by (simp add: demo_unhealthy_run)
qed

subsection \<open>The event worker and the pool lock\<close>

text \<open>
  Whatever \<open>acquire\<close> answers, the worker goes on: with \<open>disable_autoscaling\<close> set, the
  events after the request for the lock are a reading of the clock and the call that
  disables autoscaling.
\<close>

lemma event_migration_worker_goes_on:
  assumes "event_migration_worker fuel env limit migration_event worker_setup w = (r, evs, w')"
    and "disable_autoscaling worker_setup"
  shows "\<exists>acquired t rest.
           evs = SetLabelSelectors # ReloadState (\<not> ignore_pod_health worker_setup)
                 # LockAcquire (expected_duration worker_setup) acquired
                 # Time t # DisableAutoscaling (t + expected_duration worker_setup) # rest"
  using assms
  by (auto simp: event_migration_worker_def event_migration_steps_def Let_def
           split: prod.splits option.splits sum.splits bool.splits if_splits)

text \<open>
  C1. The pool lock is held by another worker for good, \<open>expected_duration\<close> is 1 and
  \<open>disable_autoscaling\<close> is set. The request for the lock times out (\<open>LockAcquire 1 False\<close>),
  and the worker neither raises nor stops: it disables autoscaling, waits for the pool to
  be healthy, drains the two nodes the event targets, releases the lock it does not hold
  and returns normally.
\<close>

theorem event_migration_worker_lock_timeout_run:
  "event_migration_worker 10 demo_env no_limit demo_event demo_setup
     \<lparr>clock = 0, lock_busy = True\<rparr>
   = (Some (Inr ()),
      [SetLabelSelectors, ReloadState True, LockAcquire 1 False,
       Time 1, DisableAutoscaling 2,
       Time 1, MonitorCall 901 [] True,
       Time 1, ReloadState False, IsCapacitySatisfied False, Poll True False True, Sleep 1,
       Time 2, ReloadState False, IsCapacitySatisfied False, Poll True False True, Sleep 1,
       Time 3, ReloadState False, IsCapacitySatisfied True, Poll True True True,
       MonitorReturn True,
       GetNodeMetadatas, TimerStart, Time 3,
       SubmitForDraining (mk_node ''a1'' 28 19000), GaugeSet 19000, CounterCount,
       SubmitForDraining (mk_node ''a0'' 30 20000), GaugeSet 20000, CounterCount,
       Sleep 1, MonitorCall 8 [mk_node ''a1'' 28 19000, mk_node ''a0'' 30 20000] False,
       Time 4, ReloadState True, GetAgentMetadata ''a1'', GetAgentMetadata ''a0'',
       IsCapacitySatisfied True, HasEnoughCapacityForPods True, Poll True True True,
       MonitorReturn True, TimerStop,
       LockRelease, EnableAutoscaling],
      \<lparr>clock = 4, lock_busy = True\<rparr>)"
  by code_simp

subsection \<open>The TTL cache\<close>

text \<open>
  The two halves of C3 cannot both hold, whatever the function is: a function that evicts
  exactly the entries strictly older than \<open>now - DRAIN_CACHE_SECONDS\<close> keeps the entry
  stamped exactly \<open>now - DRAIN_CACHE_SECONDS\<close>.
\<close>

lemma strictly_older_rule_keeps_boundary:
  fixes cache cleaned :: "string \<rightharpoonup> int"
  assumes "\<forall>k. (cache k \<noteq> None \<and> cleaned k = None) \<longleftrightarrow> (\<exists>ts. cache k = Some ts \<and> ts < now_ts - d)"
    and "cache k = Some (now_ts - d)"
  shows "cleaned k \<noteq> None"
proof
  assume "cleaned k = None"
  with assms(2) have "cache k \<noteq> None \<and> cleaned k = None" by simp
  with assms(1) obtain ts where "cache k = Some ts" "ts < now_ts - d" by blast
  with assms(2) show False by simp
qed




text \<open>
  With this rule the cache does what it is for. A host that a successful drain seeded at
  second \<open>now ans\<close> is still in the cache after any cleaning up to \<open>DRAIN_CACHE_SECONDS\<close>
  later, and a second message for the same instance is then deleted without a drain.
\<close>

lemma drained_host_stays_cached:
  assumes "host_to_drain ans = Some host"
    and "scheduler host = Kubernetes"
    and "hostname host \<noteq> []"
    and "cache (instance_id host) = None"
    and "agent_id host \<noteq> []"
    and "\<not> MAX_DRAINING_TIME cfg < now ans - draining_start_time host"
    and "k8s_drain ans = Some True"
    and "later \<le> now ans + d"
    and "host_to_drain ans' = Some host"
  shows "process_drain_queue cfg ans'
           (clean_processing_hosts_cache d later (snd (process_drain_queue cfg ans cache)))
         = ([GetHostToDrain, DeleteDrainMessages [host]],
            clean_processing_hosts_cache d later (snd (process_drain_queue cfg ans cache)))"
proof -
  have seeded: "snd (process_drain_queue cfg ans cache) = cache(instance_id host \<mapsto> now ans)"
    using assms(1-7) by (simp add: process_drain_queue_def)
  have "clean_processing_hosts_cache d later (cache(instance_id host \<mapsto> now ans)) (instance_id host)
        = Some (now ans)"
    using assms(8) by (simp add: clean_processing_hosts_cache_def)
  then show ?thesis
    unfolding seeded using assms(3,9) by (simp add: process_drain_queue_def)
qed

subsection \<open>The drain pipeline\<close>

text \<open>
  C4. A kubernetes host that reaches the drain step (it has a hostname, it is not in the
  TTL cache, it has an agent id, its draining time is not over): when \<open>k8s_drain\<close> returns
  \<open>True\<close> the host goes to the termination queue with delay 0 and the drain message is
  deleted; when it returns \<open>False\<close> the host goes back to the drain queue with its attempt
  plus one and the drain message is deleted. The message put back is for the same
  instance and its attempt is greater than the one received.
\<close>

theorem process_drain_queue_kubernetes_drain:
  assumes "host_to_drain ans = Some host"
    and "scheduler host = Kubernetes"
    and "hostname host \<noteq> []"
    and "cache (instance_id host) = None"
    and "agent_id host \<noteq> []"
    and "\<not> MAX_DRAINING_TIME cfg < now ans - draining_start_time host"
  shows "(k8s_drain ans = Some True \<longrightarrow>
            fst (process_drain_queue cfg ans cache)
            = [GetHostToDrain, K8sDrain (agent_id host) False,
               SubmitHostForTermination host 0, DeleteDrainMessages [host]])
       \<and> (k8s_drain ans = Some False \<longrightarrow>
            fst (process_drain_queue cfg ans cache)
            = [GetHostToDrain, K8sDrain (agent_id host) False,
               SubmitHostForDraining host 0 (attempt host + 1), DeleteDrainMessages [host]]
            \<and> instance_id (drain_message host (attempt host + 1)) = instance_id host
            \<and> attempt host < attempt (drain_message host (attempt host + 1)))"
  using assms by (simp add: process_drain_queue_def drain_message_def)

theorem process_drain_queue_kubernetes_drain_witness:
  "fst (process_drain_queue test_settings (test_answers test_host None False) Map.empty)
   = [GetHostToDrain, K8sDrain ''agt123'' False,
      SubmitHostForDraining test_host 0 2, DeleteDrainMessages [test_host]]
   \<and> fst (process_drain_queue test_settings
            (test_answers (test_host\<lparr>attempt := 2\<rparr>) None True) Map.empty)
   = [GetHostToDrain, K8sDrain ''agt123'' False,
      SubmitHostForTermination (test_host\<lparr>attempt := 2\<rparr>) 0,
      DeleteDrainMessages [test_host\<lparr>attempt := 2\<rparr>]]"
  using process_drain_queue_kubernetes_drain
          [of "test_answers test_host None False" test_host Map.empty test_settings]
        process_drain_queue_kubernetes_drain
          [of "test_answers (test_host\<lparr>attempt := 2\<rparr>) None True" "test_host\<lparr>attempt := 2\<rparr>"
              Map.empty test_settings]
  by (simp add: test_answers_def test_host_def test_settings_def)

text \<open>
  C5. A kubernetes host without agent id that reaches the orphan check (it has a
  hostname and is not in the TTL cache) is re-resolved with \<open>host_from_instance_id\<close>, and
  then exactly one of three things happens. No instance: the drain message is deleted
  and nothing else is done. An instance still without agent id: the host goes to the
  termination queue with delay 0 and the drain message is deleted. An instance with an
  agent id: the re-resolved host is put on the drain queue with the attempt of the received
  host plus one, and the drain message is deleted. The TTL cache is left alone.
\<close>

theorem process_drain_queue_orphan:
  assumes "host_to_drain ans = Some host"
    and "scheduler host = Kubernetes"
    and "agent_id host = []"
    and "hostname host \<noteq> []"
    and "cache (instance_id host) = None"
  shows "(host_from_instance_id ans = None \<longrightarrow>
            process_drain_queue cfg ans cache
            = ([GetHostToDrain, HostFromInstanceId (receipt_handle host) (instance_id host),
                DeleteDrainMessages [host]], cache))
       \<and> (\<forall>fresh. host_from_instance_id ans = Some fresh \<and> agent_id fresh = [] \<longrightarrow>
            process_drain_queue cfg ans cache
            = ([GetHostToDrain, HostFromInstanceId (receipt_handle host) (instance_id host),
                SubmitHostForTermination host 0, DeleteDrainMessages [host]], cache))
       \<and> (\<forall>fresh. host_from_instance_id ans = Some fresh \<and> agent_id fresh \<noteq> [] \<longrightarrow>
            process_drain_queue cfg ans cache
            = ([GetHostToDrain, HostFromInstanceId (receipt_handle host) (instance_id host),
                SubmitHostForDraining fresh 0 (attempt host + 1), DeleteDrainMessages [host]],
               cache))"
  using assms by (simp add: process_drain_queue_def)

theorem process_drain_queue_orphan_witness:
  "fst (process_drain_queue test_settings
          (test_answers (test_host\<lparr>agent_id := []\<rparr>) (Some test_host) True) Map.empty)
   = [GetHostToDrain, HostFromInstanceId ''aaaaa'' ''i12345'',
      SubmitHostForDraining test_host 0 2, DeleteDrainMessages [test_host\<lparr>agent_id := []\<rparr>]]
   \<and> fst (process_drain_queue test_settings
          (test_answers (test_host\<lparr>agent_id := []\<rparr>) None True) Map.empty)
   = [GetHostToDrain, HostFromInstanceId ''aaaaa'' ''i12345'',
      DeleteDrainMessages [test_host\<lparr>agent_id := []\<rparr>]]"
  using process_drain_queue_orphan
          [of "test_answers (test_host\<lparr>agent_id := []\<rparr>) (Some test_host) True"
              "test_host\<lparr>agent_id := []\<rparr>" Map.empty test_settings]
        process_drain_queue_orphan
          [of "test_answers (test_host\<lparr>agent_id := []\<rparr>) None True"
              "test_host\<lparr>agent_id := []\<rparr>" Map.empty test_settings]
  by (simp add: test_answers_def test_host_def test_settings_def)

subsection \<open>Conditions\<close>

lemma digit_char_props:
  assumes "d < 10"
  shows "is_digit (digit_char d)" and "digit_value (digit_char d) = d"
  using assms by (simp_all add: is_digit_def digit_value_def digit_char_def)

declare str_nat.simps [simp del]

lemma str_nat_digits: "str_nat n \<noteq> [] \<and> list_all is_digit (str_nat n)"
proof (induction n rule: str_nat.induct)
  case (1 n)
  show ?case
  proof (cases "n < 10")
    case True
    then show ?thesis by (simp add: str_nat.simps[of n] digit_char_props)
  next
    case False
    with 1 show ?thesis by (simp add: str_nat.simps[of n] digit_char_props)
  qed
qed

lemma str_nat_value: "foldl (\<lambda>a c. 10 * a + digit_value c) 0 (str_nat n) = n"
proof (induction n rule: str_nat.induct)
  case (1 n)
  show ?case
  proof (cases "n < 10")
    case True
    then show ?thesis by (simp add: str_nat.simps[of n] digit_char_props)
  next
    case False
    with 1 show ?thesis by (simp add: str_nat.simps[of n] digit_char_props)
  qed
qed

lemma int_of_digits_str_nat: "int_of_digits (str_nat n) = Some n"
  using str_nat_digits[of n] by (simp add: int_of_digits_def str_nat_value)

lemma parse_uptime_str_int: "0 \<le> n \<Longrightarrow> parse_uptime (str_int n) = Inr n"
  by (simp add: parse_uptime_def str_int_def int_of_digits_str_nat)

lemma split_not_Nil: "split sep s \<noteq> []"
  by (induction s) (auto split: list.splits)

lemma split_no_sep: "sep \<notin> set x \<Longrightarrow> split sep (x @ sep # rest) = x # split sep rest"
  by (induction x) (auto split: list.splits)

lemma split_word: "sep \<notin> set x \<Longrightarrow> split sep x = [x]"
  by (induction x) (auto split: list.splits)

lemma split_join:
  "xs \<noteq> [] \<Longrightarrow> (\<forall>x\<in>set xs. sep \<notin> set x) \<Longrightarrow> split sep (join sep xs) = xs"
proof (induction xs rule: join.induct)
  case (1 sep)
  then show ?case by simp
next
  case (2 sep x)
  then show ?case by (simp add: split_word)
next
  case (3 sep x y ys)
  then show ?case by (simp add: split_no_sep)
qed

lemma trait_of_value_trait_value: "trait_of_value (trait_value t) = Inr t"
  by (cases t) (simp_all add: trait_of_value_def trait_value_def)

lemma operator_of_value_operator_value: "operator_of_value (operator_value op) = Inr op"
  by (cases op) (simp_all add: operator_of_value_def operator_value_def)

text \<open>
  C9. For every valid condition, whatever its flavour, parsing what serializing wrote
  gives the condition back, the version libraries doing the same for their versions.
\<close>

theorem condition_round_trip:
  assumes "libraries_round_trip libs" and "valid_condition libs c"
  shows "from_dict libs (to_dict libs c) = Inr c"
proof -
  obtain t op tg where c: "c = \<lparr>trait = t, operator = op, target = tg\<rparr>"
    by (cases c) auto
  have names: "trait_of_value (trait_entry (to_dict libs c)) = Inr t"
    "operator_of_value (operator_entry (to_dict libs c)) = Inr op"
    by (simp_all add: to_dict_def c trait_of_value_trait_value operator_of_value_operator_value)
  have ops: "\<not> (expecting_collection op \<and> t \<noteq> INSTANCE_TYPE)"
    "\<not> (ordered_operator op \<and> t = INSTANCE_TYPE)"
    using assms(2)
    by (auto simp: valid_condition_def c split: ConditionTrait.splits target.splits)
  have tgt: "parse_target libs t (target_entry (to_dict libs c)) = Inr tg"
  proof (cases tg)
    case (Semver v)
    with assms show ?thesis
      by (auto simp: valid_condition_def c to_dict_def parse_target_def libraries_round_trip_def
               split: ConditionTrait.splits)
  next
    case (Pep440 v)
    with assms show ?thesis
      by (auto simp: valid_condition_def c to_dict_def parse_target_def libraries_round_trip_def
               split: ConditionTrait.splits)
  next
    case (InstanceTypes xs)
    with assms(2) have t: "t = INSTANCE_TYPE" and ne: "xs \<noteq> []"
      and each: "\<forall>x\<in>set xs. x \<in> set (known_instance_types libs) \<and> lower x = x
                   \<and> CHR '','' \<notin> set x"
      by (auto simp: valid_condition_def c list_all_iff split: ConditionTrait.splits)
    from ne each have "split CHR '','' (join CHR '','' xs) = xs" by (simp add: split_join)
    moreover from each have "map lower xs = xs" by (simp add: map_idI)
    ultimately show ?thesis using each
      by (simp add: InstanceTypes t c to_dict_def parse_target_def list_all_iff)
  next
    case (Seconds n)
    with assms(2) have "t = UPTIME" "0 \<le> n"
      by (auto simp: valid_condition_def c split: ConditionTrait.splits)
    then show ?thesis
      by (simp add: Seconds c to_dict_def parse_target_def parse_uptime_str_int)
  qed
  show ?thesis
    using names ops tgt by (simp add: from_dict_def c)
qed

lemma text_libraries_round_trip: "libraries_round_trip text_libraries"
  by (simp add: libraries_round_trip_def text_libraries_def)

lemma demo_conditions_valid:
  "valid_condition text_libraries \<lparr>trait = UPTIME, operator = LT, target = Seconds 1337\<rparr>"
  "valid_condition text_libraries
     \<lparr>trait = INSTANCE_TYPE, operator = IN,
      target = InstanceTypes [''m5.4xlarge'', ''r5.2xlarge'']\<rparr>"
  by (simp_all add: valid_condition_def text_libraries_def expecting_collection_def
        ordered_operator_def lower_def)

theorem condition_round_trip_witness:
  "from_dict text_libraries
     \<lparr>trait_entry = ''uptime'', operator_entry = ''lt'', target_entry = ''1337''\<rparr>
   = Inr \<lparr>trait = UPTIME, operator = LT, target = Seconds 1337\<rparr>
   \<and> from_dict text_libraries
     \<lparr>trait_entry = ''instance_type'', operator_entry = ''in'',
      target_entry = ''m5.4xlarge,r5.2xlarge''\<rparr>
   = Inr \<lparr>trait = INSTANCE_TYPE, operator = IN,
          target = InstanceTypes [''m5.4xlarge'', ''r5.2xlarge'']\<rparr>"
proof -
  have a: "to_dict text_libraries \<lparr>trait = UPTIME, operator = LT, target = Seconds 1337\<rparr>
           = \<lparr>trait_entry = ''uptime'', operator_entry = ''lt'', target_entry = ''1337''\<rparr>"
    by code_simp
  have b: "to_dict text_libraries
             \<lparr>trait = INSTANCE_TYPE, operator = IN,
              target = InstanceTypes [''m5.4xlarge'', ''r5.2xlarge'']\<rparr>
           = \<lparr>trait_entry = ''instance_type'', operator_entry = ''in'',
              target_entry = ''m5.4xlarge,r5.2xlarge''\<rparr>"
    by code_simp
  from condition_round_trip[OF text_libraries_round_trip demo_conditions_valid(1)]
       condition_round_trip[OF text_libraries_round_trip demo_conditions_valid(2)]
  show ?thesis unfolding a b by blast
qed

end
